theory Spec2Isabelle
  imports Complex_Main
begin

section \<open>Python strings\<close>

text \<open>
  A Python \<open>str\<close> is modelled as a \<open>string\<close>: a list of code points below 256.
  The functions below are the \<open>str\<close> methods the crawler and the browser probes call,
  restricted to that range.
\<close>

definition isspace :: "char \<Rightarrow> bool" where
  \<comment> \<open>\<open>str.isspace\<close> on one character: TAB, LF, VT, FF, CR, FS, GS, RS, US, SPACE, NEL, NBSP\<close>
  "isspace c = (let n = (of_char c :: nat) in
     (9 \<le> n \<and> n \<le> 13) \<or> (28 \<le> n \<and> n \<le> 32) \<or> n = 133 \<or> n = 160)"

definition strip :: "string \<Rightarrow> string" where
  \<comment> \<open>\<open>s.strip()\<close>\<close>
  "strip s = rev (dropWhile isspace (rev (dropWhile isspace s)))"

definition lower_char :: "char \<Rightarrow> char" where
  "lower_char c = (let n = (of_char c :: nat) in
     if (65 \<le> n \<and> n \<le> 90) \<or> (192 \<le> n \<and> n \<le> 222 \<and> n \<noteq> 215)
     then char_of (n + 32) else c)"

definition lower :: "string \<Rightarrow> string" where
  \<comment> \<open>\<open>s.lower()\<close>\<close>
  "lower s = map lower_char s"

fun startswith :: "string \<Rightarrow> string \<Rightarrow> bool" where
  \<comment> \<open>\<open>s.startswith(k)\<close>\<close>
  "startswith s [] = True"
| "startswith [] (k # ks) = False"
| "startswith (c # cs) (k # ks) = (c = k \<and> startswith cs ks)"

fun str_in :: "string \<Rightarrow> string \<Rightarrow> bool" where
  \<comment> \<open>\<open>k in s\<close>: \<open>k\<close> is a substring of \<open>s\<close>\<close>
  "str_in k [] = (k = [])"
| "str_in k (c # cs) = (startswith (c # cs) k \<or> str_in k cs)"

definition any_in :: "string list \<Rightarrow> string \<Rightarrow> bool" where
  \<comment> \<open>\<open>any(keyword in s for keyword in keywords)\<close>\<close>
  "any_in keywords s = list_ex (\<lambda>keyword. str_in keyword s) keywords"

fun str_nat :: "nat \<Rightarrow> string" where
  \<comment> \<open>\<open>str(n)\<close> of a natural number\<close>
  "str_nat n = (if n < 10 then [''0123456789'' ! n]
                else str_nat (n div 10) @ [''0123456789'' ! (n mod 10)])"

definition str_int :: "int \<Rightarrow> string" where
  "str_int i = (if i < 0 then CHR ''-'' # str_nat (nat (- i)) else str_nat (nat i))"

fun split_on :: "char \<Rightarrow> string \<Rightarrow> string list" where
  \<comment> \<open>\<open>s.split(sep)\<close> for a one-character separator\<close>
  "split_on sep [] = [[]]"
| "split_on sep (c # cs) =
     (if c = sep then [] # split_on sep cs
      else (case split_on sep cs of [] \<Rightarrow> [[c]] | w # ws \<Rightarrow> (c # w) # ws))"

definition after_colon :: "string \<Rightarrow> string option" where
  \<comment> \<open>\<open>s.split(':', 1)[1]\<close>; \<open>None\<close> is the IndexError of a string with no colon\<close>
  "after_colon s = (case dropWhile (\<lambda>c. c \<noteq> CHR '':'') s of [] \<Rightarrow> None | c # rest \<Rightarrow> Some rest)"

fun join :: "string \<Rightarrow> string list \<Rightarrow> string" where
  \<comment> \<open>\<open>sep.join(xs)\<close>\<close>
  "join sep [] = []"
| "join sep [x] = x"
| "join sep (x # y # ys) = x @ sep @ join sep (y # ys)"

fun words_of :: "string \<Rightarrow> string list" where
  \<comment> \<open>the maximal runs of non-whitespace characters, in order\<close>
  "words_of [] = []"
| "words_of (c # cs) =
     (if isspace c then words_of cs
      else (case cs of
              [] \<Rightarrow> [[c]]
            | d # ds \<Rightarrow> if isspace d then [c] # words_of cs
                        else (case words_of cs of [] \<Rightarrow> [[c]] | w # ws \<Rightarrow> (c # w) # ws)))"

section \<open>Page-type classification\<close>

definition classify_page_type :: "string \<Rightarrow> string \<Rightarrow> string \<Rightarrow> string" where
  \<comment> \<open>\<open>CrawlerService._classify_page_type\<close>\<close>
  "classify_page_type url title content =
    (let url_lower = lower url; title_lower = lower title; content_lower = lower content in
     if any_in [''landing'', ''lp'', ''campaign''] url_lower then ''landing''
     else if any_in [''product'', ''item'', ''/p/'', ''shop''] url_lower then ''product''
     else if any_in [''checkout'', ''cart'', ''payment'', ''billing''] url_lower then ''checkout''
     else if any_in [''thank'', ''confirmation'', ''success'', ''complete''] url_lower then ''confirmation''
     else if any_in [''contact'', ''support'', ''help''] url_lower then ''contact''
     else if any_in [''about'', ''team'', ''company''] url_lower then ''about''
     else if any_in [''blog'', ''news'', ''article'', ''post''] url_lower then ''content''
     else if str_in ''add to cart'' content_lower \<or> str_in ''buy now'' content_lower then ''product''
     else if str_in ''sign up'' content_lower \<or> str_in ''get started'' content_lower then ''signup''
     else ''general'')"

text \<open>
  The same classification as the specification words it: two ordered tables of
  (label, keywords), the first matching row wins, URL rows before content rows.
\<close>

definition url_rules :: "(string \<times> string list) list" where
  "url_rules =
    [(''landing'', [''landing'', ''lp'', ''campaign'']),
     (''product'', [''product'', ''item'', ''/p/'', ''shop'']),
     (''checkout'', [''checkout'', ''cart'', ''payment'', ''billing'']),
     (''confirmation'', [''thank'', ''confirmation'', ''success'', ''complete'']),
     (''contact'', [''contact'', ''support'', ''help'']),
     (''about'', [''about'', ''team'', ''company'']),
     (''content'', [''blog'', ''news'', ''article'', ''post''])]"

definition content_rules :: "(string \<times> string list) list" where
  "content_rules =
    [(''product'', [''add to cart'', ''buy now'']),
     (''signup'', [''sign up'', ''get started''])]"

fun first_match :: "(string \<times> string list) list \<Rightarrow> string \<Rightarrow> string option" where
  "first_match [] s = None"
| "first_match ((label, keywords) # rules) s =
     (if any_in keywords s then Some label else first_match rules s)"

definition classify_by_priority :: "string \<Rightarrow> string \<Rightarrow> string" where
  "classify_by_priority url content =
    (case first_match url_rules (lower url) of
       Some label \<Rightarrow> label
     | None \<Rightarrow> (case first_match content_rules (lower content) of
                  Some label \<Rightarrow> label
                | None \<Rightarrow> ''general''))"

section \<open>Parsed documents\<close>

text \<open>
  The tree BeautifulSoup builds from a page: tags with their attributes and contents,
  text, and comments. An attribute value is the string the page wrote; the root of a
  document is a tag of its own (named \<open>[document]\<close>) that no search returns.
\<close>

datatype node = Tag string "(string \<times> string) list" "node list"
  | NavigableString string
  | Comment string

fun subtree :: "node \<Rightarrow> node list" where
  \<comment> \<open>a node followed by everything below it, in document order\<close>
  "subtree (Tag name attrs contents) = Tag name attrs contents # concat (map subtree contents)"
| "subtree (NavigableString s) = [NavigableString s]"
| "subtree (Comment s) = [Comment s]"

definition descendants :: "node \<Rightarrow> node list" where
  "descendants n = tl (subtree n)"

fun has_name :: "string list \<Rightarrow> node \<Rightarrow> bool" where
  \<comment> \<open>the tag's name is one of the strings searched for\<close>
  "has_name names (Tag name attrs contents) = (name \<in> set names)"
| "has_name names (NavigableString s) = False"
| "has_name names (Comment s) = False"

fun get :: "node \<Rightarrow> string \<Rightarrow> string option" where
  \<comment> \<open>\<open>tag.get(key)\<close>; \<open>None\<close> when the tag has no such attribute\<close>
  "get (Tag name attrs contents) key = map_of attrs key"
| "get (NavigableString s) key = None"
| "get (Comment s) key = None"

definition get_or :: "node \<Rightarrow> string \<Rightarrow> string \<Rightarrow> string" where
  \<comment> \<open>\<open>tag.get(key, default)\<close>\<close>
  "get_or tag key dflt = (case get tag key of None \<Rightarrow> dflt | Some v \<Rightarrow> v)"

definition has_attr :: "node \<Rightarrow> string \<Rightarrow> bool" where
  "has_attr tag key = (get tag key \<noteq> None)"

fun own_text :: "node \<Rightarrow> string" where
  "own_text (Tag name attrs contents) = []"
| "own_text (NavigableString s) = s"
| "own_text (Comment s) = []"

definition get_text :: "node \<Rightarrow> string" where
  \<comment> \<open>\<open>tag.get_text()\<close>: the text below the tag, comments left out\<close>
  "get_text tag = concat (map own_text (subtree tag))"

definition find_all :: "node \<Rightarrow> string list \<Rightarrow> node list" where
  \<comment> \<open>\<open>tag.find_all(names)\<close>: the descendants whose tag name equals one of \<open>names\<close>\<close>
  "find_all tag names = filter (has_name names) (descendants tag)"

definition find_all_with :: "node \<Rightarrow> string \<Rightarrow> string \<Rightarrow> node list" where
  \<comment> \<open>\<open>tag.find_all(name, key=True)\<close>: the attribute is present\<close>
  "find_all_with tag name key = filter (\<lambda>n. has_attr n key) (find_all tag [name])"

definition find_all_empty :: "node \<Rightarrow> string \<Rightarrow> string \<Rightarrow> node list" where
  \<comment> \<open>\<open>tag.find_all(name, key='')\<close>: the attribute is the empty string; an absent
      attribute matches too, as BeautifulSoup lets a missing value match every falsy filter\<close>
  "find_all_empty tag name key =
     filter (\<lambda>n. get n key = None \<or> get n key = Some []) (find_all tag [name])"

definition find :: "node \<Rightarrow> string \<Rightarrow> node option" where
  \<comment> \<open>\<open>tag.find(name)\<close>: the first match, \<open>None\<close> when there is none\<close>
  "find tag name = (case find_all tag [name] of [] \<Rightarrow> None | n # ns \<Rightarrow> Some n)"

definition find_attr :: "node \<Rightarrow> string \<Rightarrow> string \<Rightarrow> string \<Rightarrow> node option" where
  \<comment> \<open>\<open>tag.find(name, attrs={key: v})\<close>\<close>
  "find_attr tag name key v =
     (case filter (\<lambda>n. get n key = Some v) (find_all tag [name]) of
        [] \<Rightarrow> None | n # ns \<Rightarrow> Some n)"

section \<open>Page records\<close>

definition detect_page_errors :: "node \<Rightarrow> int \<Rightarrow> string list" where
  \<comment> \<open>\<open>CrawlerService._detect_page_errors\<close>; a tag is truthy whatever it holds\<close>
  "detect_page_errors soup status_code =
    (let title = find soup ''title'';
         meta_desc = find_attr soup ''meta'' ''name'' ''description'';
         h1_tags = find_all soup [''h1''];
         viewport = find_attr soup ''meta'' ''name'' ''viewport'';
         broken_images = find_all_empty soup ''img'' ''src''
     in (if status_code \<ge> 400 then [''HTTP '' @ str_int status_code @ '' error''] else [])
      @ (if (case title of None \<Rightarrow> True | Some t \<Rightarrow> strip (get_text t) = [])
         then [''Missing or empty title tag''] else [])
      @ (if (case meta_desc of None \<Rightarrow> True | Some m \<Rightarrow> strip (get_or m ''content'' []) = [])
         then [''Missing meta description''] else [])
      @ (if h1_tags = [] then [''No H1 tags found'']
         else if length h1_tags > 1
         then [''Multiple H1 tags found ('' @ str_nat (length h1_tags) @ '')''] else [])
      @ (if viewport = None then [''Missing viewport meta tag''] else [])
      @ (if broken_images \<noteq> []
         then [str_nat (length broken_images) @ '' images with empty src''] else []))"

datatype pyval = Str string | Bool bool | Integer int | List "pyval list" | Dict "(string \<times> pyval) list"

record PageInfo =
  url :: string
  title :: string
  page_type :: string
  load_time :: real
  status_code :: int
  content_length :: nat
  links :: "string list"
  forms :: "pyval list"
  buttons :: "pyval list"
  images :: "string list"
  meta_description :: string
  h1_tags :: "string list"
  errors :: "string list"

definition page_links :: "node \<Rightarrow> string list" where
  \<comment> \<open>the \<open>links\<close> loop of \<open>_crawl_page\<close>\<close>
  "page_links soup =
     filter (\<lambda>href. href \<noteq> [] \<and> \<not> startswith href ''#'')
       (map (\<lambda>link. strip (get_or link ''href'' [])) (find_all_with soup ''a'' ''href''))"

definition input_info :: "node \<Rightarrow> pyval" where
  "input_info input_elem = Dict
     [(''type'', Str (get_or input_elem ''type'' ''text'')),
      (''name'', Str (get_or input_elem ''name'' [])),
      (''required'', Bool (has_attr input_elem ''required'')),
      (''placeholder'', Str (get_or input_elem ''placeholder'' []))]"

definition form_info :: "node \<Rightarrow> pyval" where
  "form_info form = Dict
     [(''action'', Str (get_or form ''action'' [])),
      (''method'', Str (lower (get_or form ''method'' ''get''))),
      (''inputs'', List (map input_info (find_all form [''input'', ''select'', ''textarea''])))]"

definition button_info :: "node \<Rightarrow> pyval" where
  \<comment> \<open>the \<open>class\<close> attribute is held as the list of its whitespace-separated words\<close>
  "button_info button = Dict
     [(''text'', Str (if strip (get_text button) \<noteq> [] then strip (get_text button)
                      else get_or button ''value'' [])),
      (''type'', Str (get_or button ''type'' ''button'')),
      (''class'', Str (join '' '' (case get button ''class'' of None \<Rightarrow> [] | Some c \<Rightarrow> words_of c))),
      (''id'', Str (get_or button ''id'' []))]"

definition page_buttons :: "node \<Rightarrow> pyval list" where
  \<comment> \<open>the \<open>buttons\<close> loop of \<open>_crawl_page\<close>: \<open>find_all\<close> is given three names to match\<close>
  \<open>page_buttons soup =
     map button_info
       (find_all soup [''button'', ''input[type="submit"]'', ''input[type="button"]''])\<close>

section \<open>The crawler's surroundings\<close>

text \<open>
  What the crawler calls and does not define: the HTTP session, the HTML parser, the URL
  functions of the standard library, the order in which a set hands out its elements, and
  the clock. A fetch is indexed by the number of the loop iteration that makes it (0 for
  the robots.txt fetch), so a site may answer differently each time.
\<close>

datatype error = FetchError | UrlError | DriverError

record response =
  status :: int
  body :: "string option"  \<comment> \<open>\<open>response.text()\<close>; \<open>None\<close>: reading it raises\<close>
  elapsed :: real

record env =
  session_get :: "nat \<Rightarrow> string \<Rightarrow> response option"  \<comment> \<open>\<open>None\<close>: the request raises or times out\<close>
  html_parser :: "string \<Rightarrow> node"
  urlparse :: "string \<Rightarrow> (string \<times> string) option"  \<comment> \<open>scheme and netloc; \<open>None\<close>: ValueError\<close>
  urljoin :: "string \<Rightarrow> string \<Rightarrow> string option"  \<comment> \<open>\<open>None\<close>: ValueError\<close>
  set_pop :: "nat \<Rightarrow> string list \<Rightarrow> nat"  \<comment> \<open>which element \<open>to_crawl.pop()\<close> takes\<close>
  crawl_time :: real

definition crawl_page :: "env \<Rightarrow> nat \<Rightarrow> string \<Rightarrow> error + PageInfo" where
  \<comment> \<open>\<open>CrawlerService._crawl_page\<close>\<close>
  "crawl_page E t the_url =
    (case session_get E t the_url of
       None \<Rightarrow> Inl FetchError
     | Some resp \<Rightarrow>
        (case body resp of
           None \<Rightarrow> Inl FetchError
         | Some content \<Rightarrow>
            (let soup = html_parser E content;
                 title_text = (case find soup ''title'' of
                                 None \<Rightarrow> [] | Some t \<Rightarrow> strip (get_text t));
                 meta_desc = (case find_attr soup ''meta'' ''name'' ''description'' of
                                None \<Rightarrow> [] | Some m \<Rightarrow> get_or m ''content'' [])
             in Inr \<lparr>url = the_url,
                     title = title_text,
                     page_type = classify_page_type the_url title_text content,
                     load_time = elapsed resp,
                     status_code = status resp,
                     content_length = length content,
                     links = page_links soup,
                     forms = map form_info (find_all soup [''form'']),
                     buttons = page_buttons soup,
                     images = map (\<lambda>img. get_or img ''src'' []) (find_all_with soup ''img'' ''src''),
                     meta_description = meta_desc,
                     h1_tags = map (\<lambda>h1. strip (get_text h1)) (find_all soup [''h1'']),
                     errors = detect_page_errors soup (status resp)\<rparr>)))"

section \<open>robots.txt\<close>

fun robots_scan :: "string list \<Rightarrow> bool \<Rightarrow> bool \<Rightarrow> bool option" where
  \<comment> \<open>the line loop of \<open>_check_robots_txt\<close>; the result is \<open>disallow_all\<close>, \<open>None\<close> when a
      line raises\<close>
  "robots_scan [] user_agent_found disallow_all = Some disallow_all"
| "robots_scan (raw # rest) user_agent_found disallow_all =
     (let line = lower (strip raw) in
      if startswith line ''user-agent:'' then
        (case after_colon line of
           None \<Rightarrow> None
         | Some a \<Rightarrow>
             (let user_agent = strip a in
              robots_scan rest (user_agent = ''*'' \<or> str_in ''funnel'' user_agent) disallow_all))
      else if startswith line ''disallow:'' \<and> user_agent_found then
        (case after_colon line of
           None \<Rightarrow> None
         | Some a \<Rightarrow>
             (let disallow_path = strip a in
              robots_scan rest user_agent_found
                (if disallow_path = ''/'' then True else disallow_all)))
      else robots_scan rest user_agent_found disallow_all)"

definition robots_try :: "env \<Rightarrow> string \<Rightarrow> bool option" where
  \<comment> \<open>the \<open>try\<close> block of \<open>_check_robots_txt\<close>: \<open>Some allowed\<close> when it returns from
      inside the block, \<open>None\<close> when it raises or falls through on a status other than 200\<close>
  "robots_try E domain =
    (case session_get E 0 (domain @ ''/robots.txt'') of
       None \<Rightarrow> None
     | Some resp \<Rightarrow>
        if status resp = 200 then
          (case body resp of
             None \<Rightarrow> None
           | Some robots_content \<Rightarrow>
              (case robots_scan (split_on (CHR 0x0A) robots_content) False False of
                 None \<Rightarrow> None
               | Some disallow_all \<Rightarrow> Some (\<not> disallow_all)))
        else None)"

definition check_robots_txt ::
  "env \<Rightarrow> (string \<rightharpoonup> bool) \<Rightarrow> string \<Rightarrow> bool \<times> (string \<rightharpoonup> bool)" where
  \<comment> \<open>\<open>CrawlerService._check_robots_txt\<close>: the answer and the cache after the call\<close>
  "check_robots_txt E robots_cache domain =
    (case robots_cache domain of
       Some cached \<Rightarrow> (cached, robots_cache)
     | None \<Rightarrow>
        (case robots_try E domain of
           Some allowed \<Rightarrow> (allowed, robots_cache(domain \<mapsto> allowed))
         | None \<Rightarrow> (True, robots_cache(domain \<mapsto> True))))"

section \<open>The crawl\<close>

definition is_same_domain :: "env \<Rightarrow> string \<Rightarrow> string \<Rightarrow> bool" where
  \<comment> \<open>\<open>CrawlerService._is_same_domain\<close>: equal netlocs, false when a parse raises\<close>
  "is_same_domain E u domain =
    (case urlparse E u of
       None \<Rightarrow> False
     | Some (scheme, netloc) \<Rightarrow>
        (case urlparse E domain of
           None \<Rightarrow> False
         | Some (domain_scheme, domain_netloc) \<Rightarrow> netloc = domain_netloc))"

definition set_add :: "string \<Rightarrow> string list \<Rightarrow> string list" where
  \<comment> \<open>\<open>s.add(x)\<close> on a set held as a list without repetition\<close>
  "set_add x xs = (if x \<in> set xs then xs else xs @ [x])"

text \<open>
  The lists a crawl builds, then the state of its loop (with the number of the iteration
  about to run), then the site map it returns.
\<close>

record crawl_lists =
  pages :: "PageInfo list"
  broken_links :: "string list"
  external_links :: "string list"

record crawl_state = crawl_lists +
  to_crawl :: "string list"
  crawled :: "string list"
  tick :: nat

fun route_links ::
  "env \<Rightarrow> string \<Rightarrow> string \<Rightarrow> string list \<Rightarrow> crawl_state \<Rightarrow> crawl_state \<times> error option" where
  \<comment> \<open>the loop over \<open>page_info.links\<close>: the state reached, and the error if \<open>urljoin\<close> raised\<close>
  "route_links E current_url domain [] s = (s, None)"
| "route_links E current_url domain (link # rest) s =
     (case urljoin E current_url link of
        None \<Rightarrow> (s, Some UrlError)
      | Some absolute_link \<Rightarrow>
          if is_same_domain E absolute_link domain
          then route_links E current_url domain rest
                 (s\<lparr>to_crawl := set_add absolute_link (to_crawl s)\<rparr>)
          else route_links E current_url domain rest
                 (s\<lparr>external_links := external_links s @ [absolute_link]\<rparr>))"

definition current_url :: "env \<Rightarrow> crawl_state \<Rightarrow> string" where
  \<comment> \<open>the element \<open>to_crawl.pop()\<close> takes from a non-empty \<open>to_crawl\<close>\<close>
  "current_url E s = to_crawl s ! (set_pop E (tick s) (to_crawl s) mod length (to_crawl s))"

definition crawl_iteration :: "env \<Rightarrow> string \<Rightarrow> crawl_state \<Rightarrow> crawl_state" where
  \<comment> \<open>one run of the body of the \<open>while\<close> loop of \<open>crawl_website\<close>, on a non-empty \<open>to_crawl\<close>\<close>
  "crawl_iteration E domain s =
    (let cur = current_url E s;
         s1 = s\<lparr>to_crawl := removeAll cur (to_crawl s), tick := Suc (tick s)\<rparr>
     in if cur \<in> set (crawled s1) then s1
        else if \<not> is_same_domain E cur domain
        then s1\<lparr>external_links := external_links s1 @ [cur]\<rparr>
        else (case crawl_page E (tick s) cur of
                Inl e \<Rightarrow> s1\<lparr>broken_links := broken_links s1 @ [cur]\<rparr>
              | Inr page_info \<Rightarrow>
                 (case route_links E cur domain (links page_info)
                         (s1\<lparr>pages := pages s1 @ [page_info],
                             crawled := set_add cur (crawled s1)\<rparr>) of
                    (s2, None) \<Rightarrow> s2
                  | (s2, Some e) \<Rightarrow> s2\<lparr>broken_links := broken_links s2 @ [cur]\<rparr>)))"

lemma route_links_crawled:
  "crawled (fst (route_links E cur d ls s)) = crawled s"
  by (induction ls arbitrary: s) (auto split: option.splits)

lemma crawl_iteration_decreases:
  assumes "to_crawl s \<noteq> []"
  shows "length (crawled (crawl_iteration E d s)) = Suc (length (crawled s))
         \<or> (crawled (crawl_iteration E d s) = crawled s
            \<and> length (to_crawl (crawl_iteration E d s)) < length (to_crawl s))"
proof -
  let ?cur = "current_url E s"
  from assms have "?cur \<in> set (to_crawl s)" by (simp add: current_url_def)
  then have shorter: "length (removeAll ?cur (to_crawl s)) < length (to_crawl s)"
    by (rule length_removeAll_less)
  show ?thesis
  proof (cases "?cur \<in> set (crawled s)")
    case True
    with shorter show ?thesis by (simp add: crawl_iteration_def Let_def)
  next
    case new: False
    show ?thesis
    proof (cases "is_same_domain E ?cur d")
      case False
      with new shorter show ?thesis by (simp add: crawl_iteration_def Let_def)
    next
      case same: True
      show ?thesis
      proof (cases "crawl_page E (tick s) ?cur")
        case (Inl e)
        with new same shorter show ?thesis by (simp add: crawl_iteration_def Let_def)
      next
        case (Inr page_info)
        obtain s2 r where rl: "route_links E ?cur d (links page_info)
            (s\<lparr>to_crawl := removeAll ?cur (to_crawl s), tick := Suc (tick s),
               pages := pages s @ [page_info], crawled := set_add ?cur (crawled s)\<rparr>) = (s2, r)"
          by (cases "route_links E ?cur d (links page_info)
            (s\<lparr>to_crawl := removeAll ?cur (to_crawl s), tick := Suc (tick s),
               pages := pages s @ [page_info], crawled := set_add ?cur (crawled s)\<rparr>)") auto
        have "crawled s2 = set_add ?cur (crawled s)"
          using route_links_crawled [of E ?cur d "links page_info"
            "s\<lparr>to_crawl := removeAll ?cur (to_crawl s), tick := Suc (tick s),
               pages := pages s @ [page_info], crawled := set_add ?cur (crawled s)\<rparr>"] rl
          by simp
        with new have len: "length (crawled s2) = Suc (length (crawled s))"
          by (simp add: set_add_def)
        have "crawled (crawl_iteration E d s) = crawled s2"
          using new same Inr rl by (cases r) (simp_all add: crawl_iteration_def Let_def)
        with len show ?thesis by simp
      qed
    qed
  qed
qed

function crawl_loop :: "env \<Rightarrow> int \<Rightarrow> string \<Rightarrow> crawl_state \<Rightarrow> crawl_state" where
  \<comment> \<open>\<open>while to_crawl and len(crawled) < self.max_pages\<close>\<close>
  "crawl_loop E max_pages domain s =
     (if to_crawl s \<noteq> [] \<and> int (length (crawled s)) < max_pages
      then crawl_loop E max_pages domain (crawl_iteration E domain s)
      else s)"
  by pat_completeness auto
termination
proof (relation "inv_image (less_than <*lex*> less_than)
    (\<lambda>(E, max_pages, domain, s).
       (nat (max_pages - int (length (crawled s))), length (to_crawl s)))")
  show "wf (inv_image (less_than <*lex*> less_than)
    (\<lambda>(E :: env, max_pages, domain :: string, s :: crawl_state).
       (nat (max_pages - int (length (crawled s))), length (to_crawl s))))"
    by (intro wf_inv_image wf_lex_prod wf_less_than)
next
  fix E :: env and max_pages :: int and domain :: string and s :: crawl_state
  assume "to_crawl s \<noteq> [] \<and> int (length (crawled s)) < max_pages"
  then have ne: "to_crawl s \<noteq> []" and lt: "int (length (crawled s)) < max_pages" by auto
  from crawl_iteration_decreases [OF ne, of E domain] lt
  show "((E, max_pages, domain, crawl_iteration E domain s), (E, max_pages, domain, s))
        \<in> inv_image (less_than <*lex*> less_than)
            (\<lambda>(E, max_pages, domain, s).
               (nat (max_pages - int (length (crawled s))), length (to_crawl s)))"
    by auto
qed

declare crawl_loop.simps [simp del]

definition dict_append ::
  "string \<Rightarrow> string \<Rightarrow> (string \<times> string list) list \<Rightarrow> (string \<times> string list) list" where
  \<comment> \<open>\<open>d[key].append(x)\<close> on a dictionary held as its list of items\<close>
  "dict_append key x d = map (\<lambda>(k, v). if k = key then (k, v @ [x]) else (k, v)) d"

definition funnel_step ::
  "(string \<times> string list) list \<Rightarrow> PageInfo \<Rightarrow> (string \<times> string list) list" where
  \<comment> \<open>the body of the loop of \<open>_identify_funnel_pages\<close>\<close>
  "funnel_step funnel page =
     (if page_type page \<in> set (map fst funnel)
      then dict_append (page_type page) (url page) funnel else funnel)"

definition identify_funnel_pages :: "PageInfo list \<Rightarrow> (string \<times> string list) list" where
  \<comment> \<open>\<open>CrawlerService._identify_funnel_pages\<close>\<close>
  "identify_funnel_pages ps =
     foldl funnel_step
       [(''landing'', []), (''product'', []), (''checkout'', []),
        (''confirmation'', []), (''signup'', []), (''contact'', [])]
       ps"

definition funnel_keys :: "string list" where
  "funnel_keys = [''landing'', ''product'', ''checkout'', ''confirmation'', ''signup'', ''contact'']"

definition initial_state :: "string \<Rightarrow> crawl_state" where
  \<comment> \<open>the state \<open>crawl_website\<close> enters its loop with\<close>
  "initial_state start_url =
     \<lparr>pages = [], broken_links = [], external_links = [],
      to_crawl = [start_url], crawled = [], tick = 1\<rparr>"

record SiteMap = crawl_lists +
  domain :: string
  crawl_stats :: "(string \<times> real) list"
  funnel_pages :: "(string \<times> string list) list"

definition crawl_website ::
  "env \<Rightarrow> int \<Rightarrow> string \<Rightarrow> (string \<rightharpoonup> bool) \<Rightarrow> error + SiteMap \<times> (string \<rightharpoonup> bool)" where
  \<comment> \<open>\<open>CrawlerService.crawl_website\<close> with \<open>self.max_pages\<close> and \<open>self.robots_cache\<close>: the
      site map and the cache after the call; the delay between pages changes neither\<close>
  "crawl_website E max_pages start_url robots_cache =
    (case urlparse E start_url of
       None \<Rightarrow> Inl UrlError
     | Some (scheme, netloc) \<Rightarrow>
        (let the_domain = scheme @ ''://'' @ netloc;
             (robots_allowed, cache) = check_robots_txt E robots_cache the_domain;
             s = crawl_loop E max_pages the_domain (initial_state start_url);
             stats = [(''total_pages'', real (length (pages s))),
                      (''broken_links'', real (length (broken_links s))),
                      (''external_links'', real (length (external_links s))),
                      (''crawl_time'', crawl_time E),
                      (''pages_per_second'',
                         if crawl_time E > 0 then real (length (pages s)) / crawl_time E else 0)]
         in Inr (\<lparr>pages = pages s, broken_links = broken_links s,
                   external_links = external_links s,
                   domain = the_domain, crawl_stats = stats,
                   funnel_pages = identify_funnel_pages (pages s)\<rparr>, cache)))"

definition crawl_inv :: "crawl_state \<Rightarrow> bool" where
  \<comment> \<open>what every state of the loop satisfies: the pages are the visited URLs, once each\<close>
  "crawl_inv s = (distinct (crawled s) \<and> map url (pages s) = crawled s)"


definition the_sitemap :: "error + SiteMap \<times> (string \<rightharpoonup> bool) \<Rightarrow> SiteMap" where
  \<comment> \<open>the site map of a crawl that returned\<close>
  "the_sitemap r = fst (projr r)"

section \<open>The browser session pool\<close>

text \<open>
  A browser session is named by a number. The pool's methods run without interruption
  between two \<open>await\<close>s, and the only \<open>await\<close> of \<open>get_driver\<close> is in its polling
  loop, which changes nothing: a caller that has to wait is \<open>Blocked\<close>, and its later
  pop of an idle session is the first branch of a later call.
\<close>

record WebDriverManager =
  headless :: bool
  max_drivers :: int
  driver_pool :: "nat list"
  available_drivers :: "nat list"

definition new_manager :: "bool \<Rightarrow> int \<Rightarrow> WebDriverManager" where
  \<comment> \<open>\<open>WebDriverManager.__init__\<close>\<close>
  "new_manager h n = \<lparr>headless = h, max_drivers = n, driver_pool = [], available_drivers = []\<rparr>"

datatype acquired = Driver nat | Blocked | CreateFailed

definition get_driver :: "nat option \<Rightarrow> WebDriverManager \<Rightarrow> acquired \<times> WebDriverManager" where
  \<comment> \<open>\<open>WebDriverManager.get_driver\<close>; \<open>created\<close> is what \<open>create_chrome_driver\<close> gives
      when called, \<open>None\<close> when it raises\<close>
  "get_driver created m =
    (if available_drivers m \<noteq> []
     then (Driver (last (available_drivers m)),
           m\<lparr>available_drivers := butlast (available_drivers m)\<rparr>)
     else if int (length (driver_pool m)) < max_drivers m
     then (case created of
             None \<Rightarrow> (CreateFailed, m)
           | Some driver \<Rightarrow> (Driver driver, m\<lparr>driver_pool := driver_pool m @ [driver]\<rparr>))
     else (Blocked, m))"

definition close_driver :: "bool \<Rightarrow> nat \<Rightarrow> WebDriverManager \<Rightarrow> WebDriverManager" where
  \<comment> \<open>\<open>WebDriverManager.close_driver\<close>; \<open>quit_ok\<close>: \<open>driver.quit()\<close> does not raise\<close>
  "close_driver quit_ok driver m =
    (if quit_ok
     then m\<lparr>driver_pool := remove1 driver (driver_pool m),
            available_drivers := remove1 driver (available_drivers m)\<rparr>
     else m)"

definition release_driver :: "bool \<Rightarrow> bool \<Rightarrow> nat \<Rightarrow> WebDriverManager \<Rightarrow> WebDriverManager" where
  \<comment> \<open>\<open>WebDriverManager.release_driver\<close>; \<open>clear_ok\<close>: clearing cookies and storage does
      not raise\<close>
  "release_driver clear_ok quit_ok driver m =
    (if clear_ok then m\<lparr>available_drivers := available_drivers m @ [driver]\<rparr>
     else close_driver quit_ok driver m)"

definition close_all :: "WebDriverManager \<Rightarrow> WebDriverManager" where
  \<comment> \<open>\<open>WebDriverManager.close_all\<close>\<close>
  "close_all m = m\<lparr>driver_pool := [], available_drivers := []\<rparr>"

datatype pool_op = GetDriver "nat option"
  | ReleaseDriver bool bool nat
  | CloseDriver bool nat
  | CloseAll

fun apply_op :: "WebDriverManager \<Rightarrow> pool_op \<Rightarrow> WebDriverManager" where
  "apply_op m (GetDriver created) = snd (get_driver created m)"
| "apply_op m (ReleaseDriver clear_ok quit_ok driver) = release_driver clear_ok quit_ok driver m"
| "apply_op m (CloseDriver quit_ok driver) = close_driver quit_ok driver m"
| "apply_op m CloseAll = close_all m"

definition run_ops :: "pool_op list \<Rightarrow> WebDriverManager \<Rightarrow> WebDriverManager" where
  "run_ops ops m = foldl apply_op m ops"

section \<open>The navigation probe\<close>

text \<open>
  What the probe reads from the browser after \<open>driver.get(url)\<close>: the URL the browser is
  at, the \<open>href\<close> attributes of the page's anchors as the page wrote them, and the title.
\<close>

record browser_page =
  at_url :: string
  anchor_hrefs :: "string list"
  page_title :: string

definition conversion_keywords :: "string list" where
  "conversion_keywords =
     [''checkout'', ''cart'', ''buy'', ''purchase'', ''order'', ''signup'', ''register'']"

definition conversion_link_keywords :: "string list" where
  \<comment> \<open>the substrings the CSS selector of \<open>_test_navigation_path\<close> asks of an \<open>href\<close>\<close>
  "conversion_link_keywords = [''checkout'', ''cart'', ''buy'', ''signup'']"

definition test_navigation_path ::
  "(string \<Rightarrow> string + browser_page) \<Rightarrow> string \<Rightarrow> string \<Rightarrow> int \<Rightarrow> pyval" where
  \<comment> \<open>\<open>InteractionTester._test_navigation_path\<close>; \<open>driver_get\<close> gives the page the browser
      reaches, or the message of the exception a driver call raises\<close>
  "test_navigation_path driver_get u link_text max_depth =
    (case driver_get u of
       Inl e \<Rightarrow> Dict [(''link_text'', Str link_text), (''url'', Str u), (''error'', Str e)]
     | Inr pg \<Rightarrow>
        (let is_conversion_page = any_in conversion_keywords (lower (at_url pg));
             conversion_links = filter (any_in conversion_link_keywords) (anchor_hrefs pg);
             clicks_to_convert =
               (if \<not> is_conversion_page \<and> max_depth > 0
                then (if conversion_links \<noteq> [] then 1 else max_depth)
                else 0)
         in Dict [(''link_text'', Str link_text), (''url'', Str u),
                  (''is_conversion_page'', Bool is_conversion_page),
                  (''clicks_to_convert'', Integer clicks_to_convert),
                  (''page_title'', Str (page_title pg))]))"

section \<open>Example sites\<close>

text \<open>
  A three-page shop. The home page links to itself, to an offer, to an about page and to
  an advertiser; the about page links back home, to the offer and to the advertiser. The
  offer's first fetches fail and a later one succeeds. The set hands out its oldest
  element.
\<close>

definition home_html :: string where
  \<open>home_html = ''<title>Home</title><a href="https://x.com/">Home</a><a href="https://x.com/landing">Offer</a><a href="https://x.com/about">About</a><a href="https://ads.example/">Ad</a>''\<close>

definition landing_html :: string where
  \<open>landing_html = ''<title>Offer</title><button>Buy</button>''\<close>

definition about_html :: string where
  \<open>about_html = ''<title>About</title><a href="https://x.com/">Home</a><a href="https://x.com/landing">Offer</a><a href="https://ads.example/">Ad</a>''\<close>

definition shop_parser :: "string \<Rightarrow> node" where
  "shop_parser content =
    (if content = home_html then Tag ''[document]'' []
        [Tag ''title'' [] [NavigableString ''Home''],
         Tag ''a'' [(''href'', ''https://x.com/'')] [NavigableString ''Home''],
         Tag ''a'' [(''href'', ''https://x.com/landing'')] [NavigableString ''Offer''],
         Tag ''a'' [(''href'', ''https://x.com/about'')] [NavigableString ''About''],
         Tag ''a'' [(''href'', ''https://ads.example/'')] [NavigableString ''Ad'']]
     else if content = landing_html then Tag ''[document]'' []
        [Tag ''title'' [] [NavigableString ''Offer''],
         Tag ''button'' [] [NavigableString ''Buy'']]
     else if content = about_html then Tag ''[document]'' []
        [Tag ''title'' [] [NavigableString ''About''],
         Tag ''a'' [(''href'', ''https://x.com/'')] [NavigableString ''Home''],
         Tag ''a'' [(''href'', ''https://x.com/landing'')] [NavigableString ''Offer''],
         Tag ''a'' [(''href'', ''https://ads.example/'')] [NavigableString ''Ad'']]
     else Tag ''[document]'' [] [NavigableString content])"

definition shop_get :: "nat \<Rightarrow> string \<Rightarrow> response option" where
  "shop_get t u =
    (if u = ''https://x.com/'' then Some \<lparr>status = 200, body = Some home_html, elapsed = 0\<rparr>
     else if u = ''https://x.com/about''
     then Some \<lparr>status = 200, body = Some about_html, elapsed = 0\<rparr>
     else if u = ''https://x.com/landing'' \<and> t \<ge> 4
     then Some \<lparr>status = 200, body = Some landing_html, elapsed = 0\<rparr>
     else None)"

definition shop_urlparse :: "string \<Rightarrow> (string \<times> string) option" where
  "shop_urlparse u =
    (if startswith u ''https://x.com'' then Some (''https'', ''x.com'')
     else if startswith u ''https://ads.example'' then Some (''https'', ''ads.example'')
     else if startswith u ''//x.com'' then Some ([], ''x.com'')
     else Some ([], []))"

definition shop :: env where
  "shop = \<lparr>session_get = shop_get, html_parser = shop_parser, urlparse = shop_urlparse,
           urljoin = (\<lambda>base link. Some link), set_pop = (\<lambda>t xs. 0), crawl_time = 0\<rparr>"



text \<open>A site that answers every request with the same document.\<close>

definition static_site :: "string \<Rightarrow> node \<Rightarrow> env" where
  "static_site html soup =
     \<lparr>session_get = (\<lambda>t u. Some \<lparr>status = 200, body = Some html, elapsed = 0\<rparr>),
      html_parser = (\<lambda>content. soup), urlparse = (\<lambda>u. Some (''https'', ''x.com'')),
      urljoin = (\<lambda>base link. Some link), set_pop = (\<lambda>t xs. 0), crawl_time = 0\<rparr>"

definition status_site :: "int \<Rightarrow> string \<Rightarrow> env" where
  \<comment> \<open>a site that answers every request with the given status and body\<close>
  "status_site st content =
     \<lparr>session_get = (\<lambda>t u. Some \<lparr>status = st, body = Some content, elapsed = 0\<rparr>),
      html_parser = (\<lambda>content. Tag ''[document]'' [] [NavigableString content]),
      urlparse = (\<lambda>u. Some (''https'', ''x.com'')),
      urljoin = (\<lambda>base link. Some link), set_pop = (\<lambda>t xs. 0), crawl_time = 0\<rparr>"

definition deny_all_txt :: string where
  "deny_all_txt = ''User-agent: *'' @ [CHR 0x0A] @ ''Disallow: /'' @ [CHR 0x0A]"

definition pool_script :: "pool_op list" where
  "pool_script =
     [GetDriver (Some 1), GetDriver (Some 2), GetDriver (Some 3), ReleaseDriver True True 1,
      GetDriver (Some 4), CloseDriver True 2, GetDriver (Some 5)]"

definition two_h1_only :: node where
  "two_h1_only = Tag ''[document]'' []
     [Tag ''h1'' [] [NavigableString ''First''], Tag ''h1'' [] [NavigableString ''Second'']]"

definition two_h1_page :: node where
  "two_h1_page = Tag ''[document]'' []
     [Tag ''html'' []
       [Tag ''head'' []
         [Tag ''title'' [] [NavigableString ''Shop''],
          Tag ''meta'' [(''name'', ''viewport''), (''content'', ''width=device-width'')] []],
        Tag ''body'' []
         [Tag ''h1'' [] [NavigableString ''First''],
          Tag ''h1'' [] [NavigableString ''Second''],
          Tag ''img'' [(''src'', ''/logo.png'')] []]]]"

definition buttons_html :: string where
  \<open>buttons_html = ''<button>Buy</button><input type="submit" value="Go"><input type="button" value="Cancel">''\<close>

definition buttons_page :: node where
  "buttons_page = Tag ''[document]'' []
     [Tag ''button'' [] [NavigableString ''Buy''],
      Tag ''input'' [(''type'', ''submit''), (''value'', ''Go'')] [],
      Tag ''input'' [(''type'', ''button''), (''value'', ''Cancel'')] []]"

definition pricing_page :: browser_page where
  "pricing_page = \<lparr>at_url = ''https://x.com/pricing'', anchor_hrefs = [''/register''],
                   page_title = ''Pricing''\<rparr>"

definition cart_page :: browser_page where
  "cart_page = \<lparr>at_url = ''https://x.com/pricing'', anchor_hrefs = [''/about'', ''/cart''],
                page_title = ''Pricing''\<rparr>"

section \<open>Facts about the string functions\<close>

lemma startswith_iff: "startswith s k \<longleftrightarrow> (\<exists>r. s = k @ r)"
  by (induction s k rule: startswith.induct) auto

lemma str_in_iff: "str_in k s \<longleftrightarrow> (\<exists>a b. s = a @ k @ b)"
proof (induction s)
  case Nil
  then show ?case by auto
next
  case (Cons c cs)
  show ?case
  proof
    assume "str_in k (c # cs)"
    then consider "startswith (c # cs) k" | "str_in k cs" by auto
    then show "\<exists>a b. c # cs = a @ k @ b"
    proof cases
      case 1
      then obtain r where "c # cs = k @ r" by (auto simp: startswith_iff)
      then have "c # cs = [] @ k @ r" by simp
      then show ?thesis by blast
    next
      case 2
      then obtain a b where "cs = a @ k @ b" using Cons.IH by auto
      then have "c # cs = (c # a) @ k @ b" by simp
      then show ?thesis by blast
    qed
  next
    assume "\<exists>a b. c # cs = a @ k @ b"
    then obtain a b where ab: "c # cs = a @ k @ b" by auto
    show "str_in k (c # cs)"
    proof (cases a)
      case Nil
      with ab have "startswith (c # cs) k" by (auto simp: startswith_iff)
      then show ?thesis by simp
    next
      case (Cons a0 as)
      with ab have "cs = as @ k @ b" by simp
      then have "str_in k cs" using Cons.IH by blast
      then show ?thesis by simp
    qed
  qed
qed

lemma lower_append: "lower (a @ b) = lower a @ lower b"
  by (simp add: lower_def)

lemma str_in_lower_append: "str_in k (lower a @ k @ lower b)"
  by (auto simp: str_in_iff)

section \<open>Facts about the crawl\<close>

lemma crawl_page_url: "crawl_page E t u = Inr p \<Longrightarrow> url p = u"
  by (auto simp: crawl_page_def Let_def split: option.splits)

lemma route_links_pages: "pages (fst (route_links E cur d ls s)) = pages s"
  by (induction ls arbitrary: s) (auto split: option.splits)


lemma crawl_iteration_inv:
  assumes "crawl_inv s"
  shows "crawl_inv (crawl_iteration E d s)"
proof -
  let ?cur = "current_url E s"
  let ?s1 = "s\<lparr>to_crawl := removeAll ?cur (to_crawl s), tick := Suc (tick s)\<rparr>"
  show ?thesis
  proof (cases "?cur \<in> set (crawled s) \<or> \<not> is_same_domain E ?cur d")
    case True
    with assms show ?thesis by (auto simp: crawl_iteration_def Let_def crawl_inv_def)
  next
    case False
    then have new: "?cur \<notin> set (crawled s)" and same: "is_same_domain E ?cur d" by auto
    show ?thesis
    proof (cases "crawl_page E (tick s) ?cur")
      case (Inl e)
      with new same assms show ?thesis by (simp add: crawl_iteration_def Let_def crawl_inv_def)
    next
      case (Inr page_info)
      let ?s2 = "?s1\<lparr>pages := pages ?s1 @ [page_info], crawled := set_add ?cur (crawled ?s1)\<rparr>"
      obtain s3 r where rl: "route_links E ?cur d (links page_info) ?s2 = (s3, r)"
        by (cases "route_links E ?cur d (links page_info) ?s2") auto
      have "crawled s3 = crawled ?s2" "pages s3 = pages ?s2"
        using route_links_crawled [of E ?cur d "links page_info" ?s2]
          route_links_pages [of E ?cur d "links page_info" ?s2] rl by simp_all
      with new assms crawl_page_url [OF Inr] have "crawl_inv s3"
        by (simp add: crawl_inv_def set_add_def)
      moreover have "crawl_iteration E d s = s3 \<or>
          crawl_iteration E d s = s3\<lparr>broken_links := broken_links s3 @ [?cur]\<rparr>"
        using new same Inr rl by (cases r) (simp_all add: crawl_iteration_def Let_def)
      ultimately show ?thesis by (auto simp: crawl_inv_def)
    qed
  qed
qed

lemma crawl_loop_inv: "crawl_inv s \<Longrightarrow> crawl_inv (crawl_loop E N d s)"
proof (induction E N d s rule: crawl_loop.induct)
  case (1 E N d s)
  show ?case
  proof (cases "to_crawl s \<noteq> [] \<and> int (length (crawled s)) < N")
    case True
    then have "crawl_loop E N d s = crawl_loop E N d (crawl_iteration E d s)"
      by (subst crawl_loop.simps) simp
    with True "1.IH" crawl_iteration_inv [OF "1.prems"] show ?thesis by simp
  next
    case False
    then have "crawl_loop E N d s = s" by (subst crawl_loop.simps) auto
    with "1.prems" show ?thesis by simp
  qed
qed

lemma crawl_loop_bound:
  "int (length (crawled s)) \<le> N \<Longrightarrow> int (length (crawled (crawl_loop E N d s))) \<le> N"
proof (induction E N d s rule: crawl_loop.induct)
  case (1 E N d s)
  show ?case
  proof (cases "to_crawl s \<noteq> [] \<and> int (length (crawled s)) < N")
    case True
    then have eq: "crawl_loop E N d s = crawl_loop E N d (crawl_iteration E d s)"
      by (subst crawl_loop.simps) simp
    from True crawl_iteration_decreases [of s E d]
    have "int (length (crawled (crawl_iteration E d s))) \<le> N" by auto
    with True "1.IH" eq show ?thesis by simp
  next
    case False
    then have "crawl_loop E N d s = s" by (subst crawl_loop.simps) auto
    with "1.prems" show ?thesis by simp
  qed
qed

lemma crawl_website_Inr:
  assumes "crawl_website E N start c = Inr (sm, c')"
  obtains sch nl where "urlparse E start = Some (sch, nl)"
    and "pages sm = pages (crawl_loop E N (sch @ ''://'' @ nl) (initial_state start))"
    and "broken_links sm = broken_links (crawl_loop E N (sch @ ''://'' @ nl) (initial_state start))"
    and "external_links sm = external_links (crawl_loop E N (sch @ ''://'' @ nl) (initial_state start))"
    and "funnel_pages sm = identify_funnel_pages (pages sm)"
    and "map_of (crawl_stats sm) ''external_links'' = Some (real (length (external_links sm)))"
  using assms
  by (auto simp: crawl_website_def Let_def initial_state_def split: option.splits prod.splits)






lemma funnel_step_table:
  "funnel_step (map (\<lambda>k. (k, g k)) ks) p =
   map (\<lambda>k. (k, g k @ (if page_type p = k then [url p] else []))) ks"
proof (cases "page_type p \<in> set ks")
  case True
  then have "funnel_step (map (\<lambda>k. (k, g k)) ks) p
      = dict_append (page_type p) (url p) (map (\<lambda>k. (k, g k)) ks)"
    by (simp add: funnel_step_def comp_def)
  also have "\<dots> = map (\<lambda>k. (k, g k @ (if page_type p = k then [url p] else []))) ks"
    by (auto simp: dict_append_def)
  finally show ?thesis .
next
  case False
  then have "funnel_step (map (\<lambda>k. (k, g k)) ks) p = map (\<lambda>k. (k, g k)) ks"
    by (simp add: funnel_step_def comp_def)
  also have "\<dots> = map (\<lambda>k. (k, g k @ (if page_type p = k then [url p] else []))) ks"
    using False by auto
  finally show ?thesis .
qed

lemma funnel_fold_table:
  "foldl funnel_step (map (\<lambda>k. (k, g k)) ks) ps =
   map (\<lambda>k. (k, g k @ map url (filter (\<lambda>p. page_type p = k) ps))) ks"
proof (induction ps arbitrary: g)
  case Nil
  then show ?case by simp
next
  case (Cons p ps)
  have "foldl funnel_step (map (\<lambda>k. (k, g k)) ks) (p # ps)
      = foldl funnel_step (map (\<lambda>k. (k, g k @ (if page_type p = k then [url p] else []))) ks) ps"
    by (simp add: funnel_step_table)
  also have "\<dots> = map (\<lambda>k. (k, (g k @ (if page_type p = k then [url p] else []))
                              @ map url (filter (\<lambda>p. page_type p = k) ps))) ks"
    by (rule Cons.IH)
  also have "\<dots> = map (\<lambda>k. (k, g k @ map url (filter (\<lambda>p. page_type p = k) (p # ps)))) ks"
    by simp
  finally show ?case .
qed

lemma identify_funnel_pages_table:
  "identify_funnel_pages ps =
   map (\<lambda>k. (k, map url (filter (\<lambda>p. page_type p = k) ps))) funnel_keys"
proof -
  have "identify_funnel_pages ps = foldl funnel_step (map (\<lambda>k. (k, [])) funnel_keys) ps"
    by (simp add: identify_funnel_pages_def funnel_keys_def)
  then show ?thesis by (simp add: funnel_fold_table)
qed

section \<open>Classification: the claims\<close>

lemma lower_landing_url: "lower ''https://x.com/landing/promo'' = ''https://x.com/landing/promo''"
  by code_simp

lemma lower_add_to_cart: "lower ''Add to Cart'' = ''add to cart''"
  by code_simp

lemma landing_in_url: "str_in ''landing'' ''https://x.com/landing/promo''"
  by code_simp

lemma home_url_no_keyword:
  "first_match url_rules (lower ''https://x.com/'') = None"
  by code_simp

lemma classify_refines:
  "classify_page_type u t c = classify_by_priority u c"
  by (simp add: classify_page_type_def classify_by_priority_def url_rules_def
      content_rules_def any_in_def Let_def del: str_in.simps)

text \<open>
  C4. Page-type classification checks its rules in a fixed priority order and the first
  match wins: the URL keyword sets for landing, product, checkout, confirmation, contact,
  about and content, then the content heuristics for product and signup, and general
  otherwise. In particular the URL https://x.com/landing/promo classifies as landing
  whatever the body holds, also a body containing "Add to Cart", which on a URL with no
  keyword classifies as product.
\<close>

theorem classify_page_type_priority:
  "classify_page_type u t c = classify_by_priority u c
   \<and> map fst url_rules =
       [''landing'', ''product'', ''checkout'', ''confirmation'', ''contact'', ''about'', ''content'']
   \<and> map fst content_rules = [''product'', ''signup'']
   \<and> classify_page_type ''https://x.com/landing/promo'' t (pre @ ''Add to Cart'' @ post) = ''landing''
   \<and> classify_page_type ''https://x.com/'' t (pre @ ''Add to Cart'' @ post) = ''product''"
proof -
  have tables: "map fst url_rules =
       [''landing'', ''product'', ''checkout'', ''confirmation'', ''contact'', ''about'', ''content'']"
    "map fst content_rules = [''product'', ''signup'']"
    by (simp_all add: url_rules_def content_rules_def)
  have "first_match url_rules ''https://x.com/landing/promo'' = Some ''landing''"
    by code_simp
  then have landing: "classify_page_type ''https://x.com/landing/promo'' t c' = ''landing''" for c'
    by (simp only: classify_refines classify_by_priority_def lower_landing_url option.case)
  have cart: "str_in ''add to cart'' (lower (pre @ ''Add to Cart'' @ post))"
    using str_in_lower_append [of "''add to cart''" pre post]
    by (simp only: lower_append lower_add_to_cart)
  have "first_match content_rules (lower (pre @ ''Add to Cart'' @ post)) = Some ''product''"
    using cart by (simp add: content_rules_def any_in_def del: str_in.simps)
  then have product:
    "classify_page_type ''https://x.com/'' t (pre @ ''Add to Cart'' @ post) = ''product''"
    by (simp only: classify_refines classify_by_priority_def home_url_no_keyword option.case)
  from classify_refines tables landing product show ?thesis by blast
qed

section \<open>Facts about the example shop\<close>

lemma shop_crawl_returns:
  "crawl_website shop 10 ''https://x.com/'' Map.empty =
     Inr (the_sitemap (crawl_website shop 10 ''https://x.com/'' Map.empty),
          snd (projr (crawl_website shop 10 ''https://x.com/'' Map.empty)))"
  by (simp add: crawl_website_def shop_def shop_urlparse_def Let_def the_sitemap_def
      split: prod.splits)


lemma shop_crawl_page_types:
  "map page_type (pages (the_sitemap (crawl_website shop 10 ''https://x.com/'' Map.empty))) =
     [''general'', ''about'', ''landing'']"
  by code_simp


lemma shop_crawl_external:
  "external_links (the_sitemap (crawl_website shop 10 ''https://x.com/'' Map.empty)) =
     [''https://ads.example/'', ''https://ads.example/'']"
  by code_simp

lemma shop_crawl_funnel:
  "funnel_pages (the_sitemap (crawl_website shop 10 ''https://x.com/'' Map.empty)) =
     [(''landing'', [''https://x.com/landing'']), (''product'', []), (''checkout'', []),
      (''confirmation'', []), (''signup'', []), (''contact'', [])]"
  by code_simp






section \<open>The crawl: the claims\<close>

text \<open>
  C1. For every crawl with page cap \<open>N \<ge> 0\<close>, from any start URL, on any site and with
  any order of taking URLs from the frontier, the site map returned holds at most \<open>N\<close>
  pages.
\<close>

theorem crawl_website_page_cap:
  assumes "0 \<le> N" and "crawl_website E N start c = Inr (sm, c')"
  shows "int (length (pages sm)) \<le> N"
proof -
  from assms(2) obtain sch nl where
    p: "pages sm = pages (crawl_loop E N (sch @ ''://'' @ nl) (initial_state start))"
    by (rule crawl_website_Inr)
  let ?s = "crawl_loop E N (sch @ ''://'' @ nl) (initial_state start)"
  have "crawl_inv (initial_state start)" by (simp add: crawl_inv_def initial_state_def)
  then have "crawl_inv ?s" by (rule crawl_loop_inv)
  then have "length (pages ?s) = length (crawled ?s)"
    by (metis crawl_inv_def length_map)
  moreover have "int (length (crawled ?s)) \<le> N"
    using assms(1) by (intro crawl_loop_bound) (simp add: initial_state_def)
  ultimately show ?thesis using p by simp
qed

theorem crawl_website_page_cap_witness:
  "(0::int) \<le> 2
   \<and> \<not> isl (crawl_website shop 2 ''https://x.com/'' Map.empty)
   \<and> length (pages (the_sitemap (crawl_website shop 2 ''https://x.com/'' Map.empty))) = 2
   \<and> int (length (pages (the_sitemap (crawl_website shop 2 ''https://x.com/'' Map.empty)))) \<le> 2"
proof -
  let ?r = "crawl_website shop 2 ''https://x.com/'' Map.empty"
  have ret: "?r = Inr (the_sitemap ?r, snd (projr ?r))"
    by (simp add: crawl_website_def shop_def shop_urlparse_def Let_def the_sitemap_def
        split: prod.splits)
  have two: "length (pages (the_sitemap ?r)) = 2" by code_simp
  have "\<not> isl ?r" by (subst ret) simp
  moreover have "int (length (pages (the_sitemap ?r))) \<le> 2"
    using crawl_website_page_cap [of 2 shop "''https://x.com/''" Map.empty
        "the_sitemap ?r" "snd (projr ?r)"] ret by simp
  ultimately show ?thesis using two by simp
qed



lemma crawl_pages_distinct:
  assumes "crawl_website E N start c = Inr (sm, c')"
  shows "distinct (map url (pages sm))"
proof -
  from assms obtain sch nl where
    p: "pages sm = pages (crawl_loop E N (sch @ ''://'' @ nl) (initial_state start))"
    by (rule crawl_website_Inr)
  have "crawl_inv (initial_state start)" by (simp add: crawl_inv_def initial_state_def)
  then have "crawl_inv (crawl_loop E N (sch @ ''://'' @ nl) (initial_state start))"
    by (rule crawl_loop_inv)
  with p show ?thesis by (simp add: crawl_inv_def)
qed




section \<open>The funnel grouping: the claim\<close>

lemma map_of_table: "k \<in> set ks \<Longrightarrow> map_of (map (\<lambda>k. (k, f k)) ks) k = Some (f k)"
  by (induction ks) auto

text \<open>
  C9. The funnel grouping of a returned site map has exactly the six keys landing, product,
  checkout, confirmation, signup and contact, empty lists included; the list under a key
  holds the URLs of the crawled pages of that type, in crawl order; and a page classified
  about, content or general is in none of the lists.
\<close>

theorem funnel_pages_grouping:
  assumes "crawl_website E N start c = Inr (sm, c')"
  shows "map fst (funnel_pages sm) =
           [''landing'', ''product'', ''checkout'', ''confirmation'', ''signup'', ''contact'']
       \<and> (\<forall>t \<in> set (map fst (funnel_pages sm)).
             map_of (funnel_pages sm) t = Some (map url (filter (\<lambda>p. page_type p = t) (pages sm))))
       \<and> (\<forall>p \<in> set (pages sm). page_type p \<in> {''about'', ''content'', ''general''} \<longrightarrow>
             (\<forall>t us. (t, us) \<in> set (funnel_pages sm) \<longrightarrow> url p \<notin> set us))"
proof -
  from assms have fp: "funnel_pages sm = identify_funnel_pages (pages sm)"
    by (rule crawl_website_Inr)
  let ?f = "\<lambda>k. map url (filter (\<lambda>p. page_type p = k) (pages sm))"
  have tab: "funnel_pages sm = map (\<lambda>k. (k, ?f k)) funnel_keys"
    by (simp only: fp identify_funnel_pages_table)
  have keys: "map fst (funnel_pages sm) = funnel_keys"
    by (simp add: tab comp_def)
  have lookup: "map_of (funnel_pages sm) t = Some (?f t)" if "t \<in> set funnel_keys" for t
    unfolding tab using that by (rule map_of_table)
  have dist: "distinct (map url (pages sm))"
    using assms by (rule crawl_pages_distinct)
  have none: "url p \<notin> set us"
    if p: "p \<in> set (pages sm)" and ty: "page_type p \<in> {''about'', ''content'', ''general''}"
      and mem: "(t, us) \<in> set (funnel_pages sm)" for p t us
  proof
    assume "url p \<in> set us"
    from mem have t: "t \<in> set funnel_keys" and us: "us = ?f t" by (auto simp: tab)
    with \<open>url p \<in> set us\<close> obtain q where q: "q \<in> set (pages sm)" "page_type q = t" "url q = url p"
      by auto
    from dist p q(1) q(3) have "q = p" by (meson distinct_map inj_onD)
    with q(2) ty t show False by (auto simp: funnel_keys_def)
  qed
  from keys lookup none show ?thesis by (auto simp: funnel_keys_def)
qed

theorem funnel_pages_grouping_witness:
  "\<not> isl (crawl_website shop 10 ''https://x.com/'' Map.empty)
   \<and> map page_type (pages (the_sitemap (crawl_website shop 10 ''https://x.com/'' Map.empty))) =
       [''general'', ''about'', ''landing'']
   \<and> map fst (funnel_pages (the_sitemap (crawl_website shop 10 ''https://x.com/'' Map.empty))) =
       [''landing'', ''product'', ''checkout'', ''confirmation'', ''signup'', ''contact'']
   \<and> map_of (funnel_pages (the_sitemap (crawl_website shop 10 ''https://x.com/'' Map.empty))) ''landing''
       = Some (map url (filter (\<lambda>p. page_type p = ''landing'')
                 (pages (the_sitemap (crawl_website shop 10 ''https://x.com/'' Map.empty)))))
   \<and> funnel_pages (the_sitemap (crawl_website shop 10 ''https://x.com/'' Map.empty)) =
       [(''landing'', [''https://x.com/landing'']), (''product'', []), (''checkout'', []),
        (''confirmation'', []), (''signup'', []), (''contact'', [])]"
proof -
  let ?r = "crawl_website shop 10 ''https://x.com/'' Map.empty"
  note T = funnel_pages_grouping [OF shop_crawl_returns]
  have ok: "\<not> isl ?r" by (subst shop_crawl_returns) simp
  from T have keys: "map fst (funnel_pages (the_sitemap ?r)) =
       [''landing'', ''product'', ''checkout'', ''confirmation'', ''signup'', ''contact'']"
    by blast
  from T have "\<forall>t \<in> set (map fst (funnel_pages (the_sitemap ?r))).
      map_of (funnel_pages (the_sitemap ?r)) t
        = Some (map url (filter (\<lambda>p. page_type p = t) (pages (the_sitemap ?r))))"
    by blast
  then have landing: "map_of (funnel_pages (the_sitemap ?r)) ''landing''
        = Some (map url (filter (\<lambda>p. page_type p = ''landing'') (pages (the_sitemap ?r))))"
    by (simp add: keys)
  from ok keys landing shop_crawl_page_types shop_crawl_funnel show ?thesis by simp
qed

section \<open>External links: the claim\<close>

lemma route_links_external:
  assumes "\<forall>l \<in> set ls. urljoin E cur l \<noteq> None"
  shows "route_links E cur d ls s =
     (fst (route_links E cur d ls s), None)
   \<and> external_links (fst (route_links E cur d ls s)) =
       external_links s @ filter (\<lambda>a. \<not> is_same_domain E a d) (List.map_filter (urljoin E cur) ls)"
  using assms
proof (induction ls arbitrary: s)
  case Nil
  then show ?case by (simp add: map_filter_simps)
next
  case (Cons l ls)
  then obtain a where a: "urljoin E cur l = Some a" by auto
  from Cons.prems have rest: "\<forall>l \<in> set ls. urljoin E cur l \<noteq> None" by simp
  show ?case
  proof (cases "is_same_domain E a d")
    case True
    with a Cons.IH [OF rest, of "s\<lparr>to_crawl := set_add a (to_crawl s)\<rparr>"]
    show ?thesis by (simp add: map_filter_simps)
  next
    case False
    with a Cons.IH [OF rest, of "s\<lparr>external_links := external_links s @ [a]\<rparr>"]
    show ?thesis by (simp add: map_filter_simps)
  qed
qed

lemma crawl_iteration_external_page:
  assumes "current_url E s \<notin> set (crawled s)"
    and "is_same_domain E (current_url E s) d"
    and "crawl_page E (tick s) (current_url E s) = Inr p"
    and "\<forall>l \<in> set (links p). urljoin E (current_url E s) l \<noteq> None"
  shows "external_links (crawl_iteration E d s) =
     external_links s @ filter (\<lambda>a. \<not> is_same_domain E a d)
                          (List.map_filter (urljoin E (current_url E s)) (links p))"
proof -
  let ?cur = "current_url E s"
  let ?s2 = "s\<lparr>to_crawl := removeAll ?cur (to_crawl s), tick := Suc (tick s),
               pages := pages s @ [p], crawled := set_add ?cur (crawled s)\<rparr>"
  note rl = route_links_external [OF assms(4), of d ?s2]
  from rl have eq: "route_links E ?cur d (links p) ?s2
      = (fst (route_links E ?cur d (links p) ?s2), None)" by blast
  have "crawl_iteration E d s = fst (route_links E ?cur d (links p) ?s2)"
    using assms(1-3) by (simp add: crawl_iteration_def Let_def) (subst eq, simp)
  with rl show ?thesis by simp
qed

text \<open>
  C10. The external links of a site map are not deduplicated. An iteration that takes an
  off-domain URL from the frontier appends it once; an iteration that crawls a page
  appends every off-domain link of the page, in order and with its repetitions; the
  statistics count the entries of the list. On the example shop the advertiser's URL,
  linked from two pages, is listed twice.
\<close>

theorem external_links_not_deduplicated:
  "(current_url E s \<notin> set (crawled s) \<and> \<not> is_same_domain E (current_url E s) d \<longrightarrow>
      external_links (crawl_iteration E d s) = external_links s @ [current_url E s])
   \<and> (current_url E s \<notin> set (crawled s) \<and> is_same_domain E (current_url E s) d
        \<and> crawl_page E (tick s) (current_url E s) = Inr p
        \<and> (\<forall>l \<in> set (links p). urljoin E (current_url E s) l \<noteq> None) \<longrightarrow>
      external_links (crawl_iteration E d s) =
        external_links s @ filter (\<lambda>a. \<not> is_same_domain E a d)
                             (List.map_filter (urljoin E (current_url E s)) (links p)))
   \<and> (crawl_website E N start c = Inr (sm, c') \<longrightarrow>
        map_of (crawl_stats sm) ''external_links'' = Some (real (length (external_links sm))))
   \<and> external_links (the_sitemap (crawl_website shop 10 ''https://x.com/'' Map.empty)) =
        [''https://ads.example/'', ''https://ads.example/'']"
proof (intro conjI impI)
  assume "current_url E s \<notin> set (crawled s) \<and> \<not> is_same_domain E (current_url E s) d"
  then show "external_links (crawl_iteration E d s) = external_links s @ [current_url E s]"
    by (simp add: crawl_iteration_def Let_def)
next
  assume "current_url E s \<notin> set (crawled s) \<and> is_same_domain E (current_url E s) d
        \<and> crawl_page E (tick s) (current_url E s) = Inr p
        \<and> (\<forall>l \<in> set (links p). urljoin E (current_url E s) l \<noteq> None)"
  then show "external_links (crawl_iteration E d s) =
        external_links s @ filter (\<lambda>a. \<not> is_same_domain E a d)
                             (List.map_filter (urljoin E (current_url E s)) (links p))"
    by (intro crawl_iteration_external_page) auto
next
  assume "crawl_website E N start c = Inr (sm, c')"
  then show "map_of (crawl_stats sm) ''external_links'' = Some (real (length (external_links sm)))"
    by (rule crawl_website_Inr)
next
  show "external_links (the_sitemap (crawl_website shop 10 ''https://x.com/'' Map.empty)) =
        [''https://ads.example/'', ''https://ads.example/'']"
    by (rule shop_crawl_external)
qed

theorem external_links_not_deduplicated_witness:
  "current_url shop (initial_state ''//x.com/'') = ''//x.com/''
   \<and> is_same_domain shop ''//x.com/'' ''://x.com'' = False
   \<and> external_links (crawl_iteration shop ''://x.com'' (initial_state ''//x.com/'')) = [''//x.com/'']
   \<and> current_url shop (initial_state ''https://x.com/'') = ''https://x.com/''
   \<and> \<not> isl (crawl_page shop 1 ''https://x.com/'')
   \<and> links (projr (crawl_page shop 1 ''https://x.com/'')) =
       [''https://x.com/'', ''https://x.com/landing'', ''https://x.com/about'', ''https://ads.example/'']
   \<and> external_links (crawl_iteration shop ''https://x.com'' (initial_state ''https://x.com/''))
       = [''https://ads.example/'']
   \<and> \<not> isl (crawl_website shop 10 ''https://x.com/'' Map.empty)
   \<and> map_of (crawl_stats (the_sitemap (crawl_website shop 10 ''https://x.com/'' Map.empty)))
        ''external_links'' = Some 2"
proof -
  let ?r = "crawl_website shop 10 ''https://x.com/'' Map.empty"
  let ?a = "initial_state ''//x.com/''"
  let ?h = "initial_state ''https://x.com/''"
  let ?p = "projr (crawl_page shop 1 ''https://x.com/'')"
  have cura: "current_url shop ?a = ''//x.com/''"
    by (simp add: current_url_def initial_state_def)
  have curh: "current_url shop ?h = ''https://x.com/''"
    by (simp add: current_url_def initial_state_def)
  have init: "crawled ?a = []" "external_links ?a = []" "crawled ?h = []"
    "external_links ?h = []" "tick ?h = 1"
    by (simp_all add: initial_state_def)
  have off: "\<not> is_same_domain shop ''//x.com/'' ''://x.com''"
    by (simp add: is_same_domain_def shop_def shop_urlparse_def)
  have same: "is_same_domain shop ''https://x.com/'' ''https://x.com''"
    by (simp add: is_same_domain_def shop_def shop_urlparse_def)
  have isr: "\<not> isl (crawl_page shop 1 ''https://x.com/'')"
    by (simp add: crawl_page_def shop_def shop_get_def Let_def)
  then have page: "crawl_page shop 1 ''https://x.com/'' = Inr ?p" by simp
  have lks: "links ?p =
       [''https://x.com/'', ''https://x.com/landing'', ''https://x.com/about'', ''https://ads.example/'']"
    by code_simp
  have joins: "\<forall>l \<in> set (links ?p). urljoin shop ''https://x.com/'' l \<noteq> None"
    by (simp add: shop_def)
  have ext: "filter (\<lambda>a. \<not> is_same_domain shop a ''https://x.com'')
               (List.map_filter (urljoin shop ''https://x.com/'') (links ?p)) = [''https://ads.example/'']"
    unfolding lks by code_simp
  have ok: "\<not> isl ?r" by (subst shop_crawl_returns) simp
  note A = external_links_not_deduplicated [of shop ?a "''://x.com''" ?p 10
      "''https://x.com/''" Map.empty "the_sitemap ?r" "snd (projr ?r)"]
  note B = external_links_not_deduplicated [of shop ?h "''https://x.com''" ?p 10
      "''https://x.com/''" Map.empty "the_sitemap ?r" "snd (projr ?r)"]
  have 1: "external_links (crawl_iteration shop ''://x.com'' ?a) = [''//x.com/'']"
    using A off by (simp add: cura init)
  have hyp: "current_url shop ?h \<notin> set (crawled ?h)
      \<and> is_same_domain shop (current_url shop ?h) ''https://x.com''
      \<and> crawl_page shop (tick ?h) (current_url shop ?h) = Inr ?p
      \<and> (\<forall>l \<in> set (links ?p). urljoin shop (current_url shop ?h) l \<noteq> None)"
    using same page joins by (simp only: curh init) simp
  from B hyp have "external_links (crawl_iteration shop ''https://x.com'' ?h) =
      external_links ?h @ filter (\<lambda>a. \<not> is_same_domain shop a ''https://x.com'')
         (List.map_filter (urljoin shop (current_url shop ?h)) (links ?p))"
    by blast
  then have 2: "external_links (crawl_iteration shop ''https://x.com'' ?h) = [''https://ads.example/'']"
    by (simp only: curh init ext append_Nil)
  have 3: "map_of (crawl_stats (the_sitemap ?r)) ''external_links'' = Some 2"
    using B shop_crawl_returns by (simp add: shop_crawl_external)
  from 1 2 3 cura curh off isr lks ok show ?thesis by simp
qed

section \<open>robots.txt: the claim\<close>

text \<open>
  C3. For a domain not yet in the cache, the robots check answers true when the fetch of
  robots.txt raises or times out, when reading the body raises, and when the status is
  not 200. Whatever it answers is stored under the domain, and a later query for the
  domain gives the stored answer and leaves the cache as it is, whatever the site would
  answer then: it does not fetch again.
\<close>

theorem check_robots_txt_fail_open:
  "(robots_cache d = None
      \<and> (session_get E 0 (d @ ''/robots.txt'') = None
          \<or> (\<exists>r. session_get E 0 (d @ ''/robots.txt'') = Some r
                  \<and> (status r \<noteq> 200 \<or> body r = None))) \<longrightarrow>
      check_robots_txt E robots_cache d = (True, robots_cache(d \<mapsto> True)))
   \<and> snd (check_robots_txt E robots_cache d) d = Some (fst (check_robots_txt E robots_cache d))
   \<and> check_robots_txt E' (snd (check_robots_txt E robots_cache d)) d =
       (fst (check_robots_txt E robots_cache d), snd (check_robots_txt E robots_cache d))"
proof (intro conjI impI)
  assume a: "robots_cache d = None
      \<and> (session_get E 0 (d @ ''/robots.txt'') = None
          \<or> (\<exists>r. session_get E 0 (d @ ''/robots.txt'') = Some r
                  \<and> (status r \<noteq> 200 \<or> body r = None)))"
  then have "robots_try E d = None"
    by (auto simp: robots_try_def)
  with a show "check_robots_txt E robots_cache d = (True, robots_cache(d \<mapsto> True))"
    by (simp add: check_robots_txt_def)
next
  show stored: "snd (check_robots_txt E robots_cache d) d
      = Some (fst (check_robots_txt E robots_cache d))"
    by (simp add: check_robots_txt_def split: option.splits)
  then show "check_robots_txt E' (snd (check_robots_txt E robots_cache d)) d =
       (fst (check_robots_txt E robots_cache d), snd (check_robots_txt E robots_cache d))"
    by (simp add: check_robots_txt_def [of E'])
qed

theorem check_robots_txt_fail_open_witness:
  "session_get shop 0 (''https://x.com'' @ ''/robots.txt'') = None
   \<and> check_robots_txt shop Map.empty ''https://x.com'' = (True, [''https://x.com'' \<mapsto> True])
   \<and> status (the (session_get (status_site 404 ''Not Found'') 0 (''https://x.com'' @ ''/robots.txt''))) = 404
   \<and> check_robots_txt (status_site 404 ''Not Found'') Map.empty ''https://x.com''
       = (True, [''https://x.com'' \<mapsto> True])
   \<and> fst (check_robots_txt (status_site 200 deny_all_txt) Map.empty ''https://x.com'') = False
   \<and> check_robots_txt (status_site 200 deny_all_txt) [''https://x.com'' \<mapsto> True] ''https://x.com''
       = (True, [''https://x.com'' \<mapsto> True])"
proof -
  let ?d = "''https://x.com''"
  have down: "session_get shop 0 (?d @ ''/robots.txt'') = None"
    by (simp add: shop_def shop_get_def)
  have nf: "session_get (status_site 404 ''Not Found'') 0 (?d @ ''/robots.txt'')
      = Some \<lparr>status = 404, body = Some ''Not Found'', elapsed = 0\<rparr>"
    by (simp add: status_site_def)
  have 1: "check_robots_txt shop Map.empty ?d = (True, [?d \<mapsto> True])"
    using check_robots_txt_fail_open [of Map.empty ?d shop shop] down by simp
  have 2: "check_robots_txt (status_site 404 ''Not Found'') Map.empty ?d = (True, [?d \<mapsto> True])"
    using check_robots_txt_fail_open [of Map.empty ?d "status_site 404 ''Not Found''" shop] nf
    by simp
  have 3: "fst (check_robots_txt (status_site 200 deny_all_txt) Map.empty ?d) = False"
    by code_simp
  have 4: "check_robots_txt (status_site 200 deny_all_txt) [?d \<mapsto> True] ?d = (True, [?d \<mapsto> True])"
    using check_robots_txt_fail_open [of Map.empty ?d shop "status_site 200 deny_all_txt"] 1
    by simp
  from down nf 1 2 3 4 show ?thesis by simp
qed

section \<open>Structural errors: the claim\<close>

lemma two_h1_only_errors:
  "detect_page_errors two_h1_only 200 =
     [''Missing or empty title tag'', ''Missing meta description'',
      ''Multiple H1 tags found (2)'', ''Missing viewport meta tag'']"
  by code_simp

text \<open>
  C5 (as stated, refuted). A document that holds two h1 tags and nothing else has two h1
  tags and no meta description, and the detector reports four errors for it: the missing
  title and the missing viewport tag besides the two of the claim.
\<close>

theorem two_h1_errors_counterexample:
  "length (find_all two_h1_only [''h1'']) = 2
   \<and> find_attr two_h1_only ''meta'' ''name'' ''description'' = None
   \<and> detect_page_errors two_h1_only 200 =
       [''Missing or empty title tag'', ''Missing meta description'',
        ''Multiple H1 tags found (2)'', ''Missing viewport meta tag'']
   \<and> set (detect_page_errors two_h1_only 200) \<noteq>
       {''Missing meta description'', ''Multiple H1 tags found (2)''}"
proof -
  have h: "length (find_all two_h1_only [''h1'']) = 2" by code_simp
  have m: "find_attr two_h1_only ''meta'' ''name'' ''description'' = None" by code_simp
  have "''Missing viewport meta tag'' \<in> set (detect_page_errors two_h1_only 200)"
    by (simp add: two_h1_only_errors)
  moreover have "''Missing viewport meta tag'' \<notin>
      {''Missing meta description'', ''Multiple H1 tags found (2)''}"
    by simp
  ultimately have "set (detect_page_errors two_h1_only 200) \<noteq>
       {''Missing meta description'', ''Multiple H1 tags found (2)''}"
    by metis
  with h m two_h1_only_errors show ?thesis by simp
qed

text \<open>
  C5 (amended). For a document with two h1 tags and no meta description that also has a
  non-empty title, a viewport meta tag and no image with an empty or missing src, and
  with an HTTP status below 400, the detector yields exactly the two errors
  "Missing meta description" and "Multiple H1 tags found (2)".
\<close>

theorem detect_page_errors_two_h1:
  assumes "st < 400"
    and "length (find_all soup [''h1'']) = 2"
    and "find_attr soup ''meta'' ''name'' ''description'' = None"
    and "find soup ''title'' = Some ttl" and "strip (get_text ttl) \<noteq> []"
    and "find_attr soup ''meta'' ''name'' ''viewport'' \<noteq> None"
    and "find_all_empty soup ''img'' ''src'' = []"
  shows "detect_page_errors soup st =
           [''Missing meta description'', ''Multiple H1 tags found (2)'']"
proof -
  from assms(2) have ne: "find_all soup [''h1''] \<noteq> []" by auto
  have two: "str_nat 2 = ''2''" by simp
  show ?thesis
    using assms ne by (simp add: detect_page_errors_def Let_def two del: str_nat.simps)
qed

theorem detect_page_errors_two_h1_witness:
  "(200::int) < 400
   \<and> length (find_all two_h1_page [''h1'']) = 2
   \<and> find_attr two_h1_page ''meta'' ''name'' ''description'' = None
   \<and> find two_h1_page ''title'' = Some (Tag ''title'' [] [NavigableString ''Shop''])
   \<and> strip (get_text (Tag ''title'' [] [NavigableString ''Shop''])) = ''Shop''
   \<and> find_attr two_h1_page ''meta'' ''name'' ''viewport'' \<noteq> None
   \<and> find_all_empty two_h1_page ''img'' ''src'' = []
   \<and> detect_page_errors two_h1_page 200 =
        [''Missing meta description'', ''Multiple H1 tags found (2)'']"
proof -
  have a: "length (find_all two_h1_page [''h1'']) = 2" by code_simp
  have b: "find_attr two_h1_page ''meta'' ''name'' ''description'' = None" by code_simp
  have c: "find two_h1_page ''title'' = Some (Tag ''title'' [] [NavigableString ''Shop''])"
    by code_simp
  have d: "strip (get_text (Tag ''title'' [] [NavigableString ''Shop''])) = ''Shop''"
    by code_simp
  have e: "find_attr two_h1_page ''meta'' ''name'' ''viewport'' \<noteq> None" by code_simp
  have f: "find_all_empty two_h1_page ''img'' ''src'' = []" by code_simp
  have "detect_page_errors two_h1_page 200 =
        [''Missing meta description'', ''Multiple H1 tags found (2)'']"
    using detect_page_errors_two_h1 [of 200 two_h1_page "Tag ''title'' [] [NavigableString ''Shop'']"]
      a b c d e f by simp
  with a b c d e f show ?thesis by simp
qed

section \<open>Buttons: the claim\<close>

text \<open>
  C6 (the code at the failing input). A page with a button element, a submit input and a
  button input is analysed into a record whose buttons list holds the descriptor of the
  button element only: the two inputs have the tag name input, which is none of the three
  names the search is given.
\<close>

theorem page_buttons_skips_inputs:
  \<open>\<not> isl (crawl_page (static_site buttons_html buttons_page) 1 ''https://x.com/'')
   \<and> buttons (projr (crawl_page (static_site buttons_html buttons_page) 1 ''https://x.com/'')) =
       [Dict [(''text'', Str ''Buy''), (''type'', Str ''button''), (''class'', Str []), (''id'', Str [])]]
   \<and> find_all buttons_page [''input''] =
       [Tag ''input'' [(''type'', ''submit''), (''value'', ''Go'')] [],
        Tag ''input'' [(''type'', ''button''), (''value'', ''Cancel'')] []]
   \<and> find_all buttons_page [''button'', ''input[type="submit"]'', ''input[type="button"]''] =
       [Tag ''button'' [] [NavigableString ''Buy'']]\<close>
proof -
  have 1: "\<not> isl (crawl_page (static_site buttons_html buttons_page) 1 ''https://x.com/'')"
    by (simp add: crawl_page_def static_site_def Let_def)
  have 2: "buttons (projr (crawl_page (static_site buttons_html buttons_page) 1 ''https://x.com/'')) =
       [Dict [(''text'', Str ''Buy''), (''type'', Str ''button''), (''class'', Str []), (''id'', Str [])]]"
    by code_simp
  have 3: "find_all buttons_page [''input''] =
       [Tag ''input'' [(''type'', ''submit''), (''value'', ''Go'')] [],
        Tag ''input'' [(''type'', ''button''), (''value'', ''Cancel'')] []]"
    by code_simp
  have 4: \<open>find_all buttons_page [''button'', ''input[type="submit"]'', ''input[type="button"]''] =
       [Tag ''button'' [] [NavigableString ''Buy'']]\<close>
    by code_simp
  from 1 2 3 4 show ?thesis by simp
qed

section \<open>The navigation probe: the claim\<close>

lemma any_in_iff: "any_in ks s \<longleftrightarrow> (\<exists>k \<in> set ks. \<exists>a b. s = a @ k @ b)"
  by (simp add: any_in_def list_ex_iff str_in_iff)

text \<open>
  C7 (as stated, refuted). The browser is at https://x.com/pricing, which holds none of
  the seven keywords, and the page's only link goes to /register, which holds the keyword
  register. With a maximal depth of 3 the probe estimates 3 clicks, not 1: the links it
  looks for are those with checkout, cart, buy or signup in their href.
\<close>

theorem navigation_register_link_counterexample:
  "test_navigation_path (\<lambda>u. Inr pricing_page) ''https://x.com/pricing'' ''Pricing'' 3 =
     Dict [(''link_text'', Str ''Pricing''), (''url'', Str ''https://x.com/pricing''),
           (''is_conversion_page'', Bool False), (''clicks_to_convert'', Integer 3),
           (''page_title'', Str ''Pricing'')]
   \<and> anchor_hrefs pricing_page = [''/register'']
   \<and> ''register'' \<in> set conversion_keywords
   \<and> str_in ''register'' ''/register''"
proof -
  have 1: "test_navigation_path (\<lambda>u. Inr pricing_page) ''https://x.com/pricing'' ''Pricing'' 3 =
     Dict [(''link_text'', Str ''Pricing''), (''url'', Str ''https://x.com/pricing''),
           (''is_conversion_page'', Bool False), (''clicks_to_convert'', Integer 3),
           (''page_title'', Str ''Pricing'')]"
    by code_simp
  have 2: "anchor_hrefs pricing_page = [''/register'']" by (simp add: pricing_page_def)
  have 3: "''register'' \<in> set conversion_keywords" by (simp add: conversion_keywords_def)
  have 4: "str_in ''register'' ''/register''" by code_simp
  from 1 2 3 4 show ?thesis by simp
qed

text \<open>
  C7 (amended). When the browser reaches the page of a navigation edge, the edge is a
  conversion page iff the lower-cased URL the browser is then at contains one of checkout,
  cart, buy, purchase, order, signup, register. When it is not a conversion page and the
  maximal depth is positive, the estimated clicks to convert are 1 if the href of an
  anchor of the page contains checkout, cart, buy or signup, and the maximal depth
  otherwise; in every other case they are 0. No other value occurs.
\<close>

theorem test_navigation_path_estimate:
  assumes "driver_get u = Inr pg"
  shows "\<exists>conv clicks.
     test_navigation_path driver_get u txt max_depth =
       Dict [(''link_text'', Str txt), (''url'', Str u),
             (''is_conversion_page'', Bool conv), (''clicks_to_convert'', Integer clicks),
             (''page_title'', Str (page_title pg))]
     \<and> (conv \<longleftrightarrow> (\<exists>k \<in> set conversion_keywords. \<exists>a b. lower (at_url pg) = a @ k @ b))
     \<and> (\<not> conv \<and> max_depth > 0 \<longrightarrow>
          clicks = (if \<exists>h \<in> set (anchor_hrefs pg).
                         \<exists>k \<in> set conversion_link_keywords. \<exists>a b. h = a @ k @ b
                    then 1 else max_depth))
     \<and> (conv \<or> max_depth \<le> 0 \<longrightarrow> clicks = 0)
     \<and> clicks \<in> {0, 1, max_depth}"
proof -
  let ?conv = "any_in conversion_keywords (lower (at_url pg))"
  let ?links = "filter (any_in conversion_link_keywords) (anchor_hrefs pg)"
  let ?clicks = "if \<not> ?conv \<and> max_depth > 0 then (if ?links \<noteq> [] then 1 else max_depth) else 0"
  have res: "test_navigation_path driver_get u txt max_depth =
       Dict [(''link_text'', Str txt), (''url'', Str u),
             (''is_conversion_page'', Bool ?conv), (''clicks_to_convert'', Integer ?clicks),
             (''page_title'', Str (page_title pg))]"
    using assms by (simp add: test_navigation_path_def Let_def)
  have conv: "?conv \<longleftrightarrow> (\<exists>k \<in> set conversion_keywords. \<exists>a b. lower (at_url pg) = a @ k @ b)"
    by (rule any_in_iff)
  have links: "?links \<noteq> [] \<longleftrightarrow>
      (\<exists>h \<in> set (anchor_hrefs pg). \<exists>k \<in> set conversion_link_keywords. \<exists>a b. h = a @ k @ b)"
    by (simp add: filter_empty_conv any_in_iff)
  have c1: "\<not> ?conv \<and> max_depth > 0 \<longrightarrow>
          ?clicks = (if \<exists>h \<in> set (anchor_hrefs pg).
                         \<exists>k \<in> set conversion_link_keywords. \<exists>a b. h = a @ k @ b
                    then 1 else max_depth)"
    using links by simp
  have c2: "?conv \<or> max_depth \<le> 0 \<longrightarrow> ?clicks = 0" by auto
  have c3: "?clicks \<in> {0, 1, max_depth}" by simp
  from res conv c1 c2 c3 show ?thesis by blast
qed

theorem test_navigation_path_estimate_witness:
  "test_navigation_path (\<lambda>u. Inr cart_page) ''https://x.com/pricing'' ''Pricing'' 3 =
     Dict [(''link_text'', Str ''Pricing''), (''url'', Str ''https://x.com/pricing''),
           (''is_conversion_page'', Bool False), (''clicks_to_convert'', Integer 1),
           (''page_title'', Str ''Pricing'')]
   \<and> anchor_hrefs cart_page = [''/about'', ''/cart'']
   \<and> (1::int) \<in> {0, 1, 3}"
proof -
  have ev: "test_navigation_path (\<lambda>u. Inr cart_page) ''https://x.com/pricing'' ''Pricing'' 3 =
     Dict [(''link_text'', Str ''Pricing''), (''url'', Str ''https://x.com/pricing''),
           (''is_conversion_page'', Bool False), (''clicks_to_convert'', Integer 1),
           (''page_title'', Str ''Pricing'')]"
    by code_simp
  from test_navigation_path_estimate [of "\<lambda>u. Inr cart_page" "''https://x.com/pricing''"
      cart_page "''Pricing''" 3]
  obtain conv clicks where
    r: "test_navigation_path (\<lambda>u. Inr cart_page) ''https://x.com/pricing'' ''Pricing'' 3 =
       Dict [(''link_text'', Str ''Pricing''), (''url'', Str ''https://x.com/pricing''),
             (''is_conversion_page'', Bool conv), (''clicks_to_convert'', Integer clicks),
             (''page_title'', Str (page_title cart_page))]"
    and range: "clicks \<in> {0, 1, 3}"
    by auto
  from r ev have "clicks = 1" by simp
  with range have "(1::int) \<in> {0, 1, 3}" by simp
  moreover have "anchor_hrefs cart_page = [''/about'', ''/cart'']" by (simp add: cart_page_def)
  ultimately show ?thesis using ev by simp
qed

section \<open>The session pool: the claim\<close>

lemma apply_op_max_drivers: "max_drivers (apply_op m op) = max_drivers m"
  by (cases op)
    (auto simp: get_driver_def release_driver_def close_driver_def close_all_def
      split: option.splits)

lemma length_remove1_le: "length (remove1 x xs) \<le> length xs"
  by (induction xs) auto

lemma apply_op_bound:
  assumes "int (length (driver_pool m)) \<le> max_drivers m" and "0 \<le> max_drivers m"
  shows "int (length (driver_pool (apply_op m op))) \<le> max_drivers m"
proof (cases op)
  case (GetDriver created)
  with assms show ?thesis by (auto simp: get_driver_def split: option.splits)
next
  case (ReleaseDriver clear_ok quit_ok driver)
  have "length (remove1 driver (driver_pool m)) \<le> length (driver_pool m)"
    by (rule length_remove1_le)
  with assms ReleaseDriver show ?thesis
    by (auto simp: release_driver_def close_driver_def)
next
  case (CloseDriver quit_ok driver)
  have "length (remove1 driver (driver_pool m)) \<le> length (driver_pool m)"
    by (rule length_remove1_le)
  with assms CloseDriver show ?thesis by (auto simp: close_driver_def)
next
  case CloseAll
  with assms show ?thesis by (simp add: close_all_def)
qed

lemma run_ops_bound:
  assumes "int (length (driver_pool m)) \<le> max_drivers m" and "0 \<le> max_drivers m"
  shows "int (length (driver_pool (run_ops ops m))) \<le> max_drivers m
         \<and> max_drivers (run_ops ops m) = max_drivers m"
  using assms
proof (induction ops arbitrary: m)
  case Nil
  then show ?case by (simp add: run_ops_def)
next
  case (Cons op ops)
  have "int (length (driver_pool (apply_op m op))) \<le> max_drivers (apply_op m op)"
    using apply_op_bound [OF Cons.prems] by (simp add: apply_op_max_drivers)
  moreover have "0 \<le> max_drivers (apply_op m op)"
    using Cons.prems by (simp add: apply_op_max_drivers)
  ultimately have "int (length (driver_pool (run_ops ops (apply_op m op)))) \<le> max_drivers (apply_op m op)
      \<and> max_drivers (run_ops ops (apply_op m op)) = max_drivers (apply_op m op)"
    by (rule Cons.IH)
  then show ?case by (simp add: run_ops_def apply_op_max_drivers)
qed

text \<open>
  C8 (as stated, refuted). A manager made with a ceiling of -1 tracks no session, and 0
  exceeds -1.
\<close>

theorem negative_ceiling_counterexample:
  "\<not> int (length (driver_pool (run_ops [] (new_manager True (- 1))))) \<le> - 1"
  by (simp add: run_ops_def new_manager_def)

text \<open>
  C8 (amended). For a ceiling \<open>max_drivers \<ge> 0\<close> and every sequence of pool operations
  on a fresh manager, whatever the browser does in them, the number of tracked sessions
  never exceeds the ceiling. An acquire adds a session only when no session is idle and
  the tracked count is strictly below the ceiling; at the ceiling it leaves the tracked
  sessions as they are and returns an idle session or waits.
\<close>

theorem driver_pool_bounded:
  "(0 \<le> n \<longrightarrow> int (length (driver_pool (run_ops ops (new_manager h n)))) \<le> n)
   \<and> (length (driver_pool (snd (get_driver created m))) > length (driver_pool m) \<longrightarrow>
        int (length (driver_pool m)) < max_drivers m \<and> available_drivers m = [])
   \<and> (max_drivers m \<le> int (length (driver_pool m)) \<longrightarrow>
        driver_pool (snd (get_driver created m)) = driver_pool m
        \<and> (if available_drivers m = [] then fst (get_driver created m) = Blocked
           else fst (get_driver created m) = Driver (last (available_drivers m))))"
proof (intro conjI impI)
  assume "0 \<le> n"
  then show "int (length (driver_pool (run_ops ops (new_manager h n)))) \<le> n"
    using run_ops_bound [of "new_manager h n" ops] by (simp add: new_manager_def)
next
  assume g: "length (driver_pool (snd (get_driver created m))) > length (driver_pool m)"
  then show "int (length (driver_pool m)) < max_drivers m"
    by (auto simp: get_driver_def split: if_splits option.splits)
  from g show "available_drivers m = []"
    by (auto simp: get_driver_def split: if_splits option.splits)
next
  assume "max_drivers m \<le> int (length (driver_pool m))"
  then show "driver_pool (snd (get_driver created m)) = driver_pool m"
    by (auto simp: get_driver_def split: option.splits)
next
  assume "max_drivers m \<le> int (length (driver_pool m))"
  then show "if available_drivers m = [] then fst (get_driver created m) = Blocked
           else fst (get_driver created m) = Driver (last (available_drivers m))"
    by (auto simp: get_driver_def)
qed

theorem driver_pool_bounded_witness:
  "(0::int) \<le> 2
   \<and> driver_pool (run_ops pool_script (new_manager True 2)) = [1, 5]
   \<and> int (length (driver_pool (run_ops pool_script (new_manager True 2)))) \<le> 2
   \<and> driver_pool (run_ops (take 2 pool_script) (new_manager True 2)) = [1, 2]
   \<and> get_driver (Some 3) (run_ops (take 2 pool_script) (new_manager True 2)) =
       (Blocked, run_ops (take 2 pool_script) (new_manager True 2))
   \<and> fst (get_driver (Some 4) (run_ops (take 4 pool_script) (new_manager True 2))) = Driver 1"
proof -
  have a: "driver_pool (run_ops pool_script (new_manager True 2)) = [1, 5]" by code_simp
  have b: "driver_pool (run_ops (take 2 pool_script) (new_manager True 2)) = [1, 2]"
    by code_simp
  have c: "get_driver (Some 3) (run_ops (take 2 pool_script) (new_manager True 2)) =
       (Blocked, run_ops (take 2 pool_script) (new_manager True 2))"
    by code_simp
  have d: "fst (get_driver (Some 4) (run_ops (take 4 pool_script) (new_manager True 2))) = Driver 1"
    by code_simp
  have "int (length (driver_pool (run_ops pool_script (new_manager True 2)))) \<le> 2"
    using driver_pool_bounded [where n = 2 and ops = pool_script and h = True
        and created = "Some 3" and m = "run_ops (take 2 pool_script) (new_manager True 2)"]
    by simp
  with a b c d show ?thesis by simp
qed

end
